theory Spec2Isabelle
  imports
    Complex_Main
    "HOL-Library.AList"
    "HOL-Library.Char_ord"
    "HOL-Library.List_Lexorder"
    "HOL-Library.Multiset"
    "HOL-Library.Product_Lexorder"
begin

section \<open>Strings and characters\<close>

text \<open>
  A Python \<^verbatim>\<open>str\<close> is modelled as a \<^typ>\<open>string\<close>: the list of its code points, each
  below 256 (the Latin-1 range), so that every value of the type is a Python string and
  the built-ins below are the ones of Python on that range. \<open>ord\<close> is Python's
  \<^verbatim>\<open>ord\<close>. The order on strings (\<open>List_Lexorder\<close> over \<open>Char_ord\<close>) is the
  comparison of Python strings: code point by code point, a proper prefix first.
\<close>

definition ord :: "char \<Rightarrow> nat" where
  "ord c = of_char c"

text \<open>\<^verbatim>\<open>str.isalpha\<close> on one character: the code points of general category L*.\<close>

definition isalpha_char :: "char \<Rightarrow> bool" where
  "isalpha_char c =
     (let n = ord c in
        (65 \<le> n \<and> n \<le> 90) \<or> (97 \<le> n \<and> n \<le> 122) \<or> n = 170 \<or> n = 181 \<or> n = 186
        \<or> (192 \<le> n \<and> n \<le> 214) \<or> (216 \<le> n \<and> n \<le> 246) \<or> (248 \<le> n \<and> n \<le> 255))"

text \<open>The whitespace of \<^verbatim>\<open>str.split()\<close> and \<^verbatim>\<open>str.strip()\<close> without arguments.\<close>

definition isspace_char :: "char \<Rightarrow> bool" where
  "isspace_char c =
     (let n = ord c in (9 \<le> n \<and> n \<le> 13) \<or> (28 \<le> n \<and> n \<le> 32) \<or> n = 133 \<or> n = 160)"

text \<open>Membership in \<^verbatim>\<open>string.punctuation\<close>.\<close>

definition ispunct_char :: "char \<Rightarrow> bool" where
  "ispunct_char c =
     (let n = ord c in
        (33 \<le> n \<and> n \<le> 47) \<or> (58 \<le> n \<and> n \<le> 64) \<or> (91 \<le> n \<and> n \<le> 96)
        \<or> (123 \<le> n \<and> n \<le> 126))"

text \<open>\<^verbatim>\<open>str.isdigit\<close> on one character.\<close>

definition isdigit_char :: "char \<Rightarrow> bool" where
  "isdigit_char c = (let n = ord c in (48 \<le> n \<and> n \<le> 57) \<or> n = 178 \<or> n = 179 \<or> n = 185)"

text \<open>\<^verbatim>\<open>str.lower\<close> on one character.\<close>

definition lower_char :: "char \<Rightarrow> char" where
  "lower_char c =
     (let n = ord c in
        if (65 \<le> n \<and> n \<le> 90) \<or> (192 \<le> n \<and> n \<le> 214) \<or> (216 \<le> n \<and> n \<le> 222)
        then char_of (n + 32) else c)"

definition lower :: "string \<Rightarrow> string" where
  "lower s = map lower_char s"

text \<open>\<^verbatim>\<open>str.isalpha\<close>: at least one character, and all of them alphabetic.\<close>

definition isalpha :: "string \<Rightarrow> bool" where
  "isalpha s = (s \<noteq> [] \<and> list_all isalpha_char s)"

text \<open>\<^verbatim>\<open>s.strip()\<close> and \<^verbatim>\<open>s.strip(string.punctuation)\<close>: both ends.\<close>

definition strip_chars :: "(char \<Rightarrow> bool) \<Rightarrow> string \<Rightarrow> string" where
  "strip_chars P s = rev (dropWhile P (rev (dropWhile P s)))"

definition strip :: "string \<Rightarrow> string" where
  "strip s = strip_chars isspace_char s"

definition strip_punctuation :: "string \<Rightarrow> string" where
  "strip_punctuation s = strip_chars ispunct_char s"

text \<open>
  \<^verbatim>\<open>s.split()\<close>: the maximal runs of non-whitespace characters, left to right.
  \<open>cur\<close> is the run being read.
\<close>

fun split_from :: "string \<Rightarrow> string \<Rightarrow> string list" where
  "split_from cur [] = (if cur = [] then [] else [cur])"
| "split_from cur (c # cs) =
     (if isspace_char c
      then (if cur = [] then split_from [] cs else cur # split_from [] cs)
      else split_from (cur @ [c]) cs)"

definition split_whitespace :: "string \<Rightarrow> string list" where
  "split_whitespace s = split_from [] s"

section \<open>Tokenizer and validator\<close>

type_synonym word_set = "string set"

text \<open>
  \<^verbatim>\<open>return True if (word not in stopwords and word.isalpha()) else False\<close>
\<close>

definition validate_word :: "string \<Rightarrow> string set \<Rightarrow> bool" where
  "validate_word word stopwords = (if word \<notin> stopwords \<and> isalpha word then True else False)"

text \<open>
  \<^verbatim>\<open>process_lyrics\<close>: the loop over \<^verbatim>\<open>word_list\<close> adding each valid word to
  \<^verbatim>\<open>processed_set\<close>.
\<close>

fun add_valid_words :: "word_set \<Rightarrow> string list \<Rightarrow> string set \<Rightarrow> word_set" where
  "add_valid_words processed_set [] stopwords = processed_set"
| "add_valid_words processed_set (word # word_list) stopwords =
     (if validate_word word stopwords
      then add_valid_words (insert word processed_set) word_list stopwords
      else add_valid_words processed_set word_list stopwords)"

definition process_lyrics :: "string \<Rightarrow> string set \<Rightarrow> word_set" where
  "process_lyrics lyrics stopwords =
     (let word_list = map (\<lambda>word. strip_punctuation (strip (lower word))) (split_whitespace lyrics)
      in add_valid_words {} word_list stopwords)"

text \<open>
  \<^verbatim>\<open>validate_set\<close> returns False at the first invalid word it meets and True when the
  loop ends: whatever the order in which the set is traversed, that is True exactly when
  every word is valid.
\<close>

definition validate_set :: "word_set \<Rightarrow> string set \<Rightarrow> bool" where
  "validate_set word_set stopwords = (\<forall>word \<in> word_set. validate_word word stopwords)"

section \<open>The index\<close>

text \<open>
  A Python \<^verbatim>\<open>dict\<close> keeps its keys in insertion order, and the order shows in every
  loop over it, so a dict is an association list in insertion order: \<open>map_of\<close> is the
  lookup, \<open>AList.update\<close> is \<^verbatim>\<open>d[k] = v\<close> (an existing key keeps its place and gets
  the new value, a new key goes to the end). The keys of a dict are distinct.
\<close>

type_synonym song_dict = "(string \<times> word_set) list"
type_synonym data_dict = "(string \<times> song_dict) list"

definition wf_dict :: "('k \<times> 'v) list \<Rightarrow> bool" where
  "wf_dict d = distinct (map fst d)"

definition wf_index :: "data_dict \<Rightarrow> bool" where
  "wf_index d = (wf_dict d \<and> list_all (\<lambda>(singer, songs). wf_dict songs) d)"

text \<open>The WordSet stored for a song of a singer, if any.\<close>

definition lookup_song :: "data_dict \<Rightarrow> string \<Rightarrow> string \<Rightarrow> word_set option" where
  "lookup_song d singer song =
     (case map_of d singer of None \<Rightarrow> None | Some songs \<Rightarrow> map_of songs song)"

definition update_dictionary :: "data_dict \<Rightarrow> string \<Rightarrow> string \<Rightarrow> word_set \<Rightarrow> data_dict" where
  "update_dictionary d singer song words =
     (case map_of d singer of
        None \<Rightarrow> AList.update singer [(song, words)] d
      | Some songs \<Rightarrow> AList.update singer (AList.update song words songs) d)"

datatype error = StopIteration | IndexError | ZeroDivisionError

text \<open>
  \<^verbatim>\<open>read_data\<close> over the rows that \<^verbatim>\<open>csv.reader\<close> yields (each a list of fields).
  \<^verbatim>\<open>next(reader)\<close> drops the first row and raises \<^verbatim>\<open>StopIteration\<close> when there is
  none; \<^verbatim>\<open>line[2]\<close>, read first, raises \<^verbatim>\<open>IndexError\<close> on a row of fewer than
  three fields. An exception leaves the function without a return value.
\<close>

fun read_rows :: "data_dict \<Rightarrow> string list list \<Rightarrow> string set \<Rightarrow> error + data_dict" where
  "read_rows d [] stopwords = Inr d"
| "read_rows d (line # rest) stopwords =
     (case line of
        singer # song # lyrics # _ \<Rightarrow>
          read_rows (update_dictionary d singer song (process_lyrics (lower lyrics) stopwords))
            rest stopwords
      | _ \<Rightarrow> Inl IndexError)"

definition read_data :: "string list list \<Rightarrow> string set \<Rightarrow> error + data_dict" where
  "read_data rows stopwords =
     (case rows of
        [] \<Rightarrow> Inl StopIteration
      | header # rest \<Rightarrow> read_rows [] rest stopwords)"

section \<open>Statistics\<close>

text \<open>
  \<^verbatim>\<open>calculate_average_word_count\<close>. \<^verbatim>\<open>word_total / song_total\<close> is Python's true
  division of two integers, which returns a float: the division is the parameter
  \<open>truediv\<close>, applied only to a divisor that is not zero, and the type \<open>'f\<close> stands for
  the floats. On a zero divisor Python raises \<^verbatim>\<open>ZeroDivisionError\<close>.
\<close>

fun add_word_counts :: "nat \<Rightarrow> word_set list \<Rightarrow> nat" where
  "add_word_counts word_total [] = word_total"
| "add_word_counts word_total (word_set # rest) = add_word_counts (word_total + card word_set) rest"

definition singer_average :: "(nat \<Rightarrow> nat \<Rightarrow> 'f) \<Rightarrow> song_dict \<Rightarrow> error + 'f" where
  "singer_average truediv songs =
     (let song_total = length (map fst songs);
          word_total = add_word_counts 0 (map snd songs)
      in if song_total = 0 then Inl ZeroDivisionError else Inr (truediv word_total song_total))"

fun average_loop ::
  "(nat \<Rightarrow> nat \<Rightarrow> 'f) \<Rightarrow> (string \<times> 'f) list \<Rightarrow> data_dict \<Rightarrow> error + (string \<times> 'f) list" where
  "average_loop truediv average_dict [] = Inr average_dict"
| "average_loop truediv average_dict ((singer, songs) # rest) =
     (case singer_average truediv songs of
        Inl e \<Rightarrow> Inl e
      | Inr average \<Rightarrow> average_loop truediv (AList.update singer average average_dict) rest)"

definition calculate_average_word_count ::
  "(nat \<Rightarrow> nat \<Rightarrow> 'f) \<Rightarrow> data_dict \<Rightarrow> error + (string \<times> 'f) list" where
  "calculate_average_word_count truediv d = average_loop truediv [] d"

section \<open>Ranking\<close>

text \<open>
  \<^verbatim>\<open>display_singers\<close>: the rows it prints under the header, in order. A tuple is
  (singer, average, vocabulary size, number of songs), as \<^verbatim>\<open>main\<close> builds it, and
  \<^verbatim>\<open>itemgetter(1, 3)\<close> reads the average and the number of songs. The averages are
  compared as floats that are numbers (a quotient of integers is never NaN), a linear
  order. \<^verbatim>\<open>sorted(..., reverse=True)\<close> is stable: tuples with equal keys keep the order
  they had, which is the ascending stable sort on the reversed list, reversed.
\<close>

type_synonym 'f singer_tuple = "string \<times> 'f \<times> nat \<times> nat"

definition itemgetter_1_3 :: "'f singer_tuple \<Rightarrow> 'f \<times> nat" where
  "itemgetter_1_3 t = (case t of (singer, average, vocab_size, song_total) \<Rightarrow> (average, song_total))"

definition sorted_reverse :: "('a \<Rightarrow> 'k::linorder) \<Rightarrow> 'a list \<Rightarrow> 'a list" where
  "sorted_reverse key xs = rev (sort_key key (rev xs))"

definition display_singers :: "('f::linorder) singer_tuple list \<Rightarrow> 'f singer_tuple list" where
  "display_singers combined_list =
     (let singers_list = sorted_reverse itemgetter_1_3 combined_list
      in take 10 singers_list)"

section \<open>Searching\<close>

text \<open>
  \<^verbatim>\<open>search_songs\<close>: the two loops append the matches to \<^verbatim>\<open>match_list\<close> (the inner
  loop is \<open>matching_songs\<close>) in the order of the dicts, then
  \<^verbatim>\<open>sorted(match_list, key=itemgetter(0, 1))\<close> sorts the pairs, stably, by themselves.
  \<^verbatim>\<open>songs[song_name]\<close> reads a key that the loop has just taken from \<^verbatim>\<open>songs\<close>, so
  the lookup finds it (\<open>song_lookup_found\<close> below) and the branch for a missing key is
  never taken.
\<close>

definition matching_songs :: "string \<Rightarrow> song_dict \<Rightarrow> word_set \<Rightarrow> (string \<times> string) list" where
  "matching_songs singer songs words =
     map (\<lambda>song_name. (singer, song_name))
       (filter (\<lambda>song_name. case map_of songs song_name of
                                Some word_set \<Rightarrow> words \<subseteq> word_set
                              | None \<Rightarrow> False)
          (map fst songs))"

definition itemgetter_0_1 :: "string \<times> string \<Rightarrow> string \<times> string" where
  "itemgetter_0_1 t = (case t of (singer, song_name) \<Rightarrow> (singer, song_name))"

definition match_list :: "data_dict \<Rightarrow> word_set \<Rightarrow> (string \<times> string) list" where
  "match_list d words = concat (map (\<lambda>(singer, songs). matching_songs singer songs words) d)"

definition search_songs :: "data_dict \<Rightarrow> word_set \<Rightarrow> (string \<times> string) list" where
  "search_songs d words = sort_key itemgetter_0_1 (match_list d words)"

section \<open>Notions used to state the properties\<close>

text \<open>The index reached from \<open>d\<close> by a sequence of inserts (singer, song, words).\<close>

fun apply_inserts :: "data_dict \<Rightarrow> (string \<times> string \<times> word_set) list \<Rightarrow> data_dict" where
  "apply_inserts d [] = d"
| "apply_inserts d ((singer, song, words) # rest) =
     apply_inserts (update_dictionary d singer song words) rest"

text \<open>The pairs (artist, song) whose WordSet in the index includes every word of \<open>Q\<close>.\<close>

definition matches :: "data_dict \<Rightarrow> word_set \<Rightarrow> (string \<times> string) set" where
  "matches d Q = {(a, s). \<exists>ws. lookup_song d a s = Some ws \<and> Q \<subseteq> ws}"

text \<open>Every artist key maps to a song map with at least one song.\<close>

definition songs_nonempty :: "data_dict \<Rightarrow> bool" where
  "songs_nonempty d = list_all (\<lambda>(singer, songs). songs \<noteq> []) d"

text \<open>\<^verbatim>\<open>' '.join(ws)\<close>: the words, one space between two neighbours.\<close>

fun join_words :: "string list \<Rightarrow> string" where
  "join_words [] = []"
| "join_words [w] = w"
| "join_words (w # ws) = w @ '' '' @ join_words ws"

text \<open>
  The exact quotient of two integers, the number that Python's true division rounds to a
  float: one division to run the statistics on examples.
\<close>

definition exact_quotient :: "nat \<Rightarrow> nat \<Rightarrow> rat" where
  "exact_quotient a b = of_nat a / of_nat b"

section \<open>The validator\<close>

lemma alpha_not_other:
  "isalpha_char c \<Longrightarrow> \<not> isspace_char c \<and> \<not> ispunct_char c \<and> \<not> isdigit_char c"
  by (auto simp: isalpha_char_def isspace_char_def ispunct_char_def isdigit_char_def Let_def)

text \<open>
  C3. For every string \<open>w\<close> and every stopword set \<open>S\<close>, \<open>validate_word w S\<close> is true if
  and only if \<open>w\<close> is non-empty, all its characters are alphabetic, and \<open>w\<close> is not a
  member of \<open>S\<close>; a valid word has no whitespace, no punctuation and no digit.
\<close>

theorem validate_word_iff:
  "(validate_word w S \<longleftrightarrow> w \<noteq> [] \<and> (\<forall>c \<in> set w. isalpha_char c) \<and> w \<notin> S)
   \<and> (validate_word w S \<longrightarrow>
        (\<forall>c \<in> set w. \<not> isspace_char c \<and> \<not> ispunct_char c \<and> \<not> isdigit_char c))"
  by (auto simp: validate_word_def isalpha_def list_all_iff dest: alpha_not_other)

theorem validate_word_iff_witness:
  "validate_word ''cat'' {''the''} \<and> \<not> validate_word ''the'' {''the''}
   \<and> \<not> validate_word ''c4t'' {''the''} \<and> \<not> validate_word [] {''the''}"
  using validate_word_iff [of "''cat''" "{''the''}"] validate_word_iff [of "''the''" "{''the''}"]
    validate_word_iff [of "''c4t''" "{''the''}"] validate_word_iff [of "[]" "{''the''}"]
  by (simp add: isalpha_char_def ord_def)

section \<open>Inserting into the index\<close>

lemma map_of_update_dictionary:
  "map_of (update_dictionary d singer song words) =
     (map_of d)(singer \<mapsto> (case map_of d singer of None \<Rightarrow> [(song, words)]
                              | Some songs \<Rightarrow> AList.update song words songs))"
  by (simp add: update_dictionary_def update_conv' split: option.split)

lemma lookup_song_update_dictionary:
  "lookup_song (update_dictionary d singer song words) a s =
     (if a = singer \<and> s = song then Some words else lookup_song d a s)"
  by (auto simp: lookup_song_def map_of_update_dictionary update_conv' split: option.split)

text \<open>
  C10. For every index \<open>d\<close> and every insert of (singer, song, words): afterwards the
  index maps singer and song to exactly \<open>words\<close>; every other artist key maps to the
  song map it had; and every other song of the singer maps to the WordSet it had.
\<close>

theorem update_dictionary_frame:
  "lookup_song (update_dictionary d singer song words) singer song = Some words
   \<and> (\<forall>a. a \<noteq> singer \<longrightarrow> map_of (update_dictionary d singer song words) a = map_of d a)
   \<and> (\<forall>s. s \<noteq> song \<longrightarrow>
         lookup_song (update_dictionary d singer song words) singer s = lookup_song d singer s)"
  by (simp add: lookup_song_update_dictionary map_of_update_dictionary)

theorem update_dictionary_frame_witness:
  "lookup_song (update_dictionary
       [(''A'', [(''S1'', {''old''}), (''S2'', {''z''})]), (''B'', [(''T'', {''y''})])]
       ''A'' ''S1'' {''new''}) ''A'' ''S1'' = Some {''new''}
   \<and> ''B'' \<noteq> ''A''
   \<and> map_of (update_dictionary
       [(''A'', [(''S1'', {''old''}), (''S2'', {''z''})]), (''B'', [(''T'', {''y''})])]
       ''A'' ''S1'' {''new''}) ''B'' = Some [(''T'', {''y''})]
   \<and> ''S2'' \<noteq> ''S1''
   \<and> lookup_song (update_dictionary
       [(''A'', [(''S1'', {''old''}), (''S2'', {''z''})]), (''B'', [(''T'', {''y''})])]
       ''A'' ''S1'' {''new''}) ''A'' ''S2'' = Some {''z''}"
  using update_dictionary_frame
    [of "[(''A'', [(''S1'', {''old''}), (''S2'', {''z''})]), (''B'', [(''T'', {''y''})])]"
        "''A''" "''S1''" "{''new''}"]
  by (simp add: lookup_song_def)

lemma keys_update_dictionary_present:
  assumes "lookup_song d singer song = Some old"
  shows "map fst (update_dictionary d singer song words) = map fst d"
    and "\<exists>songs songs'. map_of d singer = Some songs
           \<and> map_of (update_dictionary d singer song words) singer = Some songs'
           \<and> map fst songs' = map fst songs"
proof -
  from assms obtain songs where s: "map_of d singer = Some songs" "map_of songs song = Some old"
    by (auto simp: lookup_song_def split: option.splits)
  from s(1) have "singer \<in> fst ` set d"
    by (auto dest: map_of_SomeD intro: rev_image_eqI)
  then show "map fst (update_dictionary d singer song words) = map fst d"
    using s(1) by (simp add: update_dictionary_def update_keys)
  from s(2) have "song \<in> fst ` set songs"
    by (auto dest: map_of_SomeD intro: rev_image_eqI)
  then show "\<exists>songs songs'. map_of d singer = Some songs
           \<and> map_of (update_dictionary d singer song words) singer = Some songs'
           \<and> map fst songs' = map fst songs"
    using s(1) by (simp add: map_of_update_dictionary update_keys)
qed

text \<open>
  C7. For every index \<open>d\<close> and every insert for a pair (singer, song) that already has an
  entry \<open>old\<close>, the entry after the insert is the new WordSet \<open>words\<close> alone: it is not
  the union of \<open>old\<close> and \<open>words\<close> (whenever that union differs from \<open>words\<close>), and
  no artist and no song title is added or moved.
\<close>

theorem update_dictionary_replaces:
  assumes "lookup_song d singer song = Some old"
  shows "lookup_song (update_dictionary d singer song words) singer song = Some words
         \<and> (old \<union> words \<noteq> words \<longrightarrow>
              lookup_song (update_dictionary d singer song words) singer song \<noteq> Some (old \<union> words))
         \<and> map fst (update_dictionary d singer song words) = map fst d
         \<and> (\<exists>songs songs'. map_of d singer = Some songs
              \<and> map_of (update_dictionary d singer song words) singer = Some songs'
              \<and> map fst songs' = map fst songs)"
  using keys_update_dictionary_present [OF assms, of words]
  by (simp add: lookup_song_update_dictionary)

theorem update_dictionary_replaces_witness:
  "lookup_song [(''A'', [(''S1'', {''old''}), (''S2'', {''z''})])] ''A'' ''S1'' = Some {''old''}
   \<and> lookup_song (update_dictionary [(''A'', [(''S1'', {''old''}), (''S2'', {''z''})])]
          ''A'' ''S1'' {''new''}) ''A'' ''S1'' = Some {''new''}
   \<and> {''old''} \<union> {''new''} \<noteq> {''new''}
   \<and> lookup_song (update_dictionary [(''A'', [(''S1'', {''old''}), (''S2'', {''z''})])]
          ''A'' ''S1'' {''new''}) ''A'' ''S1'' \<noteq> Some ({''old''} \<union> {''new''})"
proof -
  have h: "lookup_song [(''A'', [(''S1'', {''old''}), (''S2'', {''z''})])] ''A'' ''S1''
             = Some {''old''}"
    by (simp add: lookup_song_def)
  have ne: "{''old''} \<union> {''new''} \<noteq> {''new''}" by auto
  show ?thesis
    using update_dictionary_replaces [OF h, of "{''new''}"] h ne by simp
qed

section \<open>The invariant of the index\<close>

lemma set_update_subset: "set (AList.update k v al) \<subseteq> insert (k, v) (set al)"
  by (induction al) auto

lemma songs_nonempty_update_dictionary:
  "songs_nonempty d \<Longrightarrow> songs_nonempty (update_dictionary d singer song words)"
proof -
  have "\<And>v. v \<noteq> [] \<Longrightarrow> songs_nonempty d \<Longrightarrow> songs_nonempty (AList.update singer v d)"
    using set_update_subset [of singer _ d]
    by (auto simp: songs_nonempty_def list_all_iff)
  then show "songs_nonempty d \<Longrightarrow> songs_nonempty (update_dictionary d singer song words)"
    by (simp add: update_dictionary_def split: option.splits)
qed

lemma songs_nonempty_apply_inserts:
  "songs_nonempty d \<Longrightarrow> songs_nonempty (apply_inserts d ops)"
  by (induction d ops rule: apply_inserts.induct) (simp_all add: songs_nonempty_update_dictionary)

lemma songs_nonempty_read_rows:
  "songs_nonempty d \<Longrightarrow> read_rows d rows S = Inr d' \<Longrightarrow> songs_nonempty d'"
proof (induction rows arbitrary: d)
  case Nil
  then show ?case by simp
next
  case (Cons line rows)
  then show ?case
    by (auto split: list.splits dest: songs_nonempty_update_dictionary)
qed

lemma songs_nonempty_read_data:
  "read_data rows S = Inr d \<Longrightarrow> songs_nonempty d"
proof -
  assume a: "read_data rows S = Inr d"
  have e: "songs_nonempty []" by (simp add: songs_nonempty_def)
  from a obtain header rest where "read_rows [] rest S = Inr d"
    by (auto simp: read_data_def split: list.splits)
  with e show ?thesis by (rule songs_nonempty_read_rows)
qed

lemma average_loop_returns:
  "songs_nonempty d \<Longrightarrow> \<exists>r. average_loop truediv acc d = Inr r"
  by (induction d arbitrary: acc) (auto simp: songs_nonempty_def singer_average_def)

text \<open>
  C5. Every index that the build pass returns, and every index reached from the empty one
  by a sequence of inserts, maps each artist key to a song map with at least one song, and
  on such an index the average-word-count computation returns: it never divides by zero.
\<close>

theorem no_division_by_zero:
  "(read_data rows S = Inr d \<longrightarrow>
      songs_nonempty d \<and> (\<exists>r. calculate_average_word_count truediv d = Inr r))
   \<and> songs_nonempty (apply_inserts [] ops)
   \<and> (\<exists>r. calculate_average_word_count truediv (apply_inserts [] ops) = Inr r)"
proof -
  have e: "songs_nonempty []" by (simp add: songs_nonempty_def)
  show ?thesis
    using songs_nonempty_read_data [of rows S d] songs_nonempty_apply_inserts [OF e, of ops]
    by (auto simp: calculate_average_word_count_def intro: average_loop_returns)
qed

theorem no_division_by_zero_witness:
  "read_data [[''artist'', ''song'', ''text''], [''Art1'', ''S1'', ''the cat sat''],
              [''Art1'', ''S2'', ''a dog ran fast'']] {''the'', ''a''}
     = Inr [(''Art1'', [(''S1'', {''cat'', ''sat''}), (''S2'', {''dog'', ''ran'', ''fast''})])]
   \<and> songs_nonempty [(''Art1'', [(''S1'', {''cat'', ''sat''}), (''S2'', {''dog'', ''ran'', ''fast''})])]
   \<and> (\<exists>r. calculate_average_word_count exact_quotient
          [(''Art1'', [(''S1'', {''cat'', ''sat''}), (''S2'', {''dog'', ''ran'', ''fast''})])] = Inr r)
   \<and> songs_nonempty (apply_inserts [] [(''Art2'', ''T1'', {}), (''Art2'', ''T1'', {''cat''})])"
proof -
  have h: "read_data [[''artist'', ''song'', ''text''], [''Art1'', ''S1'', ''the cat sat''],
              [''Art1'', ''S2'', ''a dog ran fast'']] {''the'', ''a''}
     = Inr [(''Art1'', [(''S1'', {''cat'', ''sat''}), (''S2'', {''dog'', ''ran'', ''fast''})])]"
    by code_simp
  show ?thesis
    using no_division_by_zero
      [of "[[''artist'', ''song'', ''text''], [''Art1'', ''S1'', ''the cat sat''],
              [''Art1'', ''S2'', ''a dog ran fast'']]" "{''the'', ''a''}"
          "[(''Art1'', [(''S1'', {''cat'', ''sat''}), (''S2'', {''dog'', ''ran'', ''fast''})])]"
          exact_quotient "[(''Art2'', ''T1'', {}), (''Art2'', ''T1'', {''cat''})]"] h
    by blast
qed

text \<open>
  The keys stay distinct at both levels: every index that the program builds is a dict
  of dicts.
\<close>

lemma wf_index_update_dictionary:
  assumes "wf_index d"
  shows "wf_index (update_dictionary d singer song words)"
proof -
  have step: "wf_index (AList.update singer v d)" if "wf_dict v" for v
  proof -
    have "wf_dict (AList.update singer v d)"
      using assms by (simp add: wf_index_def wf_dict_def distinct_update)
    moreover have "list_all (\<lambda>(singer, songs). wf_dict songs) (AList.update singer v d)"
      using assms that set_update_subset [of singer v d]
      by (auto simp: wf_index_def list_all_iff)
    ultimately show ?thesis by (simp add: wf_index_def)
  qed
  show ?thesis
  proof (cases "map_of d singer")
    case None
    then show ?thesis
      using step [of "[(song, words)]"] by (simp add: update_dictionary_def wf_dict_def)
  next
    case (Some songs)
    then have "(singer, songs) \<in> set d" by (rule map_of_SomeD)
    with assms have "wf_dict songs" by (auto simp: wf_index_def list_all_iff)
    then have "wf_dict (AList.update song words songs)"
      by (simp add: wf_dict_def distinct_update)
    from step [OF this] Some show ?thesis by (simp add: update_dictionary_def)
  qed
qed

lemma wf_index_apply_inserts: "wf_index d \<Longrightarrow> wf_index (apply_inserts d ops)"
  by (induction d ops rule: apply_inserts.induct) (simp_all add: wf_index_update_dictionary)

lemma wf_index_read_rows:
  "wf_index d \<Longrightarrow> read_rows d rows S = Inr d' \<Longrightarrow> wf_index d'"
proof (induction rows arbitrary: d)
  case Nil
  then show ?case by simp
next
  case (Cons line rows)
  then show ?case
    by (auto split: list.splits dest: wf_index_update_dictionary)
qed

lemma wf_index_read_data:
  assumes "read_data rows S = Inr d"
  shows "wf_index d"
proof -
  have e: "wf_index []" by (simp add: wf_index_def wf_dict_def)
  from assms obtain header rest where "read_rows [] rest S = Inr d"
    by (auto simp: read_data_def split: list.splits)
  with e show ?thesis by (rule wf_index_read_rows)
qed

section \<open>The build pass\<close>

lemma read_rows_short_row:
  "\<exists>line \<in> set rows. length line < 3 \<Longrightarrow> read_rows d rows S = Inl IndexError"
proof (induction rows arbitrary: d)
  case Nil
  then show ?case by simp
next
  case (Cons line rows)
  show ?case
  proof (cases "length line < 3")
    case True
    then show ?thesis
      by (auto split: list.splits)
  next
    case False
    with Cons.prems have "\<exists>line \<in> set rows. length line < 3" by simp
    then have "\<And>d. read_rows d rows S = Inl IndexError" by (rule Cons.IH)
    then show ?thesis by (simp split: list.splits)
  qed
qed

lemma read_rows_inserts:
  "\<forall>line \<in> set rows. 3 \<le> length line \<Longrightarrow>
     read_rows d rows S =
       Inr (apply_inserts d
              (map (\<lambda>line. (line ! 0, line ! 1, process_lyrics (lower (line ! 2)) S)) rows))"
proof (induction rows arbitrary: d)
  case Nil
  then show ?case by simp
next
  case (Cons line rows)
  from Cons.prems have "3 \<le> length line" by simp
  then obtain singer song lyrics more where "line = singer # song # lyrics # more"
    by (auto simp: numeral_3_eq_3 Suc_le_length_iff)
  with Cons show ?case by simp
qed

lemma read_rows_take_3: "read_rows d (map (take 3) rows) S = read_rows d rows S"
proof (induction rows arbitrary: d)
  case Nil
  then show ?case by simp
next
  case (Cons line rows)
  show ?case
  proof (cases "length line < 3")
    case True
    then have "take 3 line = line" by simp
    with Cons.IH show ?thesis by (simp split: list.splits)
  next
    case False
    then obtain singer song lyrics more where "line = singer # song # lyrics # more"
      by (auto simp: numeral_3_eq_3 Suc_le_length_iff not_less)
    with Cons.IH show ?thesis by (simp add: numeral_3_eq_3)
  qed
qed

text \<open>
  C2, as the code has it. For every row sequence with a row of fewer than three fields
  after the header, the build pass fails with \<open>IndexError\<close> and returns no index,
  whatever rows come before or after. When every row after the header has at least three
  fields, the pass returns the index made by inserting, row after row, the first field as
  singer, the second as song and the tokenized third as WordSet. Fields beyond the third
  and the header are never read: cutting every row to its first three fields, or
  changing the header, changes nothing.
\<close>

theorem read_data_short_row:
  "((\<exists>line \<in> set rest. length line < 3) \<longrightarrow> read_data (header # rest) S = Inl IndexError)
   \<and> ((\<forall>line \<in> set rest. 3 \<le> length line) \<longrightarrow>
        read_data (header # rest) S =
          Inr (apply_inserts []
                 (map (\<lambda>line. (line ! 0, line ! 1, process_lyrics (lower (line ! 2)) S)) rest)))
   \<and> read_data (header' # map (take 3) rest) S = read_data (header # rest) S"
  by (simp add: read_data_def read_rows_short_row read_rows_inserts read_rows_take_3)

text \<open>
  C2 as stated fails on a row of four fields: the row does not have exactly three, and
  the build pass returns an index made from its first three fields.
\<close>

theorem read_data_long_row_counterexample:
  "length [''Art1'', ''S1'', ''the cat sat'', ''1999''] \<noteq> 3
   \<and> read_data [[''artist'', ''song'', ''text''], [''Art1'', ''S1'', ''the cat sat'', ''1999'']]
        {''the'', ''a''}
     = Inr [(''Art1'', [(''S1'', {''cat'', ''sat''})])]"
  by code_simp

theorem read_data_short_row_witness:
  "length [''Art1'', ''S2''] < 3
   \<and> read_data [[''artist'', ''song'', ''text''], [''Art1'', ''S1'', ''the cat sat''],
                [''Art1'', ''S2'']] {''the'', ''a''} = Inl IndexError
   \<and> 3 \<le> length [''Art1'', ''S1'', ''the cat sat'', ''1999'']
   \<and> read_data [[''artist'', ''song''], [''Art1'', ''S1'', ''the cat sat'', ''1999'']]
        {''the'', ''a''}
       = Inr (apply_inserts [] [(''Art1'', ''S1'', process_lyrics (lower ''the cat sat'') {''the'', ''a''})])
   \<and> read_data [[''artist'', ''song'', ''text''], [''Art1'', ''S1'', ''the cat sat'']]
        {''the'', ''a''}
       = read_data [[''artist'', ''song''], [''Art1'', ''S1'', ''the cat sat'', ''1999'']]
        {''the'', ''a''}"
  using read_data_short_row [of "[[''Art1'', ''S1'', ''the cat sat''], [''Art1'', ''S2'']]"
      "[''artist'', ''song'', ''text'']" "{''the'', ''a''}"]
    read_data_short_row [of "[[''Art1'', ''S1'', ''the cat sat'', ''1999'']]"
      "[''artist'', ''song'']" "{''the'', ''a''}" "[''artist'', ''song'', ''text'']"]
  by simp

section \<open>Searching the index\<close>

lemma song_lookup_found:
  "song_name \<in> set (map fst songs) \<Longrightarrow> \<exists>word_set. map_of songs song_name = Some word_set"
  by (cases "map_of songs song_name") (auto simp: map_of_eq_None_iff)

lemma set_matching_songs:
  "set (matching_songs singer songs Q) =
     {(singer, s) | s. \<exists>ws. map_of songs s = Some ws \<and> Q \<subseteq> ws}"
proof -
  have "\<And>s ws. map_of songs s = Some ws \<Longrightarrow> s \<in> fst ` set songs"
    by (auto dest: map_of_SomeD intro: rev_image_eqI)
  then show ?thesis
    by (auto simp: matching_songs_def split: option.splits)
qed

lemma distinct_matching_songs:
  "wf_dict songs \<Longrightarrow> distinct (matching_songs singer songs Q)"
  by (simp add: matching_songs_def wf_dict_def distinct_map inj_on_def)

lemma in_match_list:
  "(a, s) \<in> set (match_list d Q) \<longleftrightarrow>
     (\<exists>songs ws. (a, songs) \<in> set d \<and> map_of songs s = Some ws \<and> Q \<subseteq> ws)"
  by (induction d) (auto simp: match_list_def set_matching_songs)

lemma set_match_list:
  assumes "wf_dict d"
  shows "set (match_list d Q) = matches d Q"
proof -
  have k: "\<And>a songs. (a, songs) \<in> set d \<longleftrightarrow> map_of d a = Some songs"
    using assms by (simp add: wf_dict_def)
  have "\<And>a s. (a, s) \<in> set (match_list d Q)
          \<longleftrightarrow> (a, s) \<in> matches d Q"
    unfolding in_match_list k by (auto simp: matches_def lookup_song_def split: option.splits)
  then show ?thesis by (intro set_eqI) (simp add: split_paired_all)
qed

lemma distinct_match_list:
  "wf_index d \<Longrightarrow> distinct (match_list d Q)"
proof (induction d)
  case Nil
  then show ?case by (simp add: match_list_def)
next
  case (Cons p d)
  obtain a songs where p: "p = (a, songs)" by (cases p)
  from Cons.prems have w: "wf_dict songs" "wf_index d" "a \<notin> fst ` set d"
    by (auto simp: p wf_index_def wf_dict_def)
  have "\<And>s. (a, s) \<notin> set (match_list d Q)"
    unfolding in_match_list using w(3) by (auto intro: rev_image_eqI)
  then have "set (matching_songs a songs Q) \<inter> set (match_list d Q) = {}"
    by (auto simp: set_matching_songs)
  with w Cons.IH show ?case
    by (simp add: p distinct_matching_songs match_list_def)
qed

lemma search_songs_sort:
  "search_songs d Q = sort (match_list d Q)"
proof -
  have "itemgetter_0_1 = (\<lambda>x. x)" by (auto simp: itemgetter_0_1_def)
  then show ?thesis by (simp add: search_songs_def)
qed

lemma search_songs_props:
  assumes "wf_index d"
  shows "set (search_songs d Q) = matches d Q"
    and "sorted (search_songs d Q)" and "distinct (search_songs d Q)"
proof -
  from assms have "wf_dict d" by (simp add: wf_index_def)
  then show "set (search_songs d Q) = matches d Q"
    by (simp add: search_songs_sort set_match_list)
  show "sorted (search_songs d Q)"
    by (simp add: search_songs_sort)
  show "distinct (search_songs d Q)"
    using assms by (simp add: search_songs_sort distinct_match_list)
qed

lemma search_songs_order:
  assumes "wf_index d"
  shows "sorted_wrt (\<lambda>p q. fst p < fst q \<or> (fst p = fst q \<and> snd p < snd q)) (search_songs d Q)"
proof -
  have "sorted_wrt (<) (search_songs d Q)"
    using search_songs_props [OF assms] by (simp add: strict_sorted_iff)
  then show ?thesis
    by (rule sorted_wrt_mono_rel [rotated]) (simp add: less_prod_def')
qed

lemma search_songs_same:
  assumes "wf_index d" "wf_index d'" "\<forall>a s. lookup_song d' a s = lookup_song d a s"
  shows "search_songs d' Q = search_songs d Q"
proof (rule sorted_distinct_set_unique)
  show "set (search_songs d' Q) = set (search_songs d Q)"
    using assms by (simp add: search_songs_props matches_def)
qed (simp_all add: assms search_songs_props)

text \<open>
  C1. For every index \<open>d\<close> (a dict of dicts: distinct keys at both levels) and every
  non-empty query set \<open>Q\<close> of valid words, \<open>search_songs d Q\<close> holds exactly the pairs
  (artist, song) whose WordSet includes \<open>Q\<close>, in strictly ascending order by artist and
  then by song, the strings compared lexicographically; and every index with the same
  entries, in whatever order they were inserted, gives the same list.
\<close>

theorem search_songs_correct:
  assumes "wf_index d" and "Q \<noteq> {}" and "validate_set Q S"
  shows "set (search_songs d Q) = matches d Q
         \<and> sorted_wrt (\<lambda>p q. fst p < fst q \<or> (fst p = fst q \<and> snd p < snd q)) (search_songs d Q)
         \<and> (\<forall>d'. wf_index d' \<and> (\<forall>a s. lookup_song d' a s = lookup_song d a s)
                \<longrightarrow> search_songs d' Q = search_songs d Q)"
  using assms(1) search_songs_props(1) search_songs_order search_songs_same by blast

theorem search_songs_correct_witness:
  "wf_index [(''B'', [(''S1'', {''cat'', ''sat''})]),
             (''A'', [(''S2'', {''dog'', ''ran''}), (''S1'', {''cat'', ''fast''})])]
   \<and> {''cat''} \<noteq> ({} :: string set)
   \<and> validate_set {''cat''} {''the'', ''a''}
   \<and> search_songs [(''B'', [(''S1'', {''cat'', ''sat''})]),
                    (''A'', [(''S2'', {''dog'', ''ran''}), (''S1'', {''cat'', ''fast''})])] {''cat''}
       = [(''A'', ''S1''), (''B'', ''S1'')]
   \<and> set [(''A'', ''S1''), (''B'', ''S1'')]
       = matches [(''B'', [(''S1'', {''cat'', ''sat''})]),
                  (''A'', [(''S2'', {''dog'', ''ran''}), (''S1'', {''cat'', ''fast''})])] {''cat''}
   \<and> search_songs [(''A'', [(''S1'', {''cat'', ''fast''}), (''S2'', {''dog'', ''ran''})]),
                    (''B'', [(''S1'', {''cat'', ''sat''})])] {''cat''}
       = [(''A'', ''S1''), (''B'', ''S1'')]"
proof -
  let ?d = "[(''B'', [(''S1'', {''cat'', ''sat''})]),
             (''A'', [(''S2'', {''dog'', ''ran''}), (''S1'', {''cat'', ''fast''})])]"
  let ?d' = "[(''A'', [(''S1'', {''cat'', ''fast''}), (''S2'', {''dog'', ''ran''})]),
              (''B'', [(''S1'', {''cat'', ''sat''})])]"
  have w: "wf_index ?d" by code_simp
  have w': "wf_index ?d'" by code_simp
  have q: "{''cat''} \<noteq> ({} :: string set)" by simp
  have v: "validate_set {''cat''} {''the'', ''a''}" by code_simp
  have r: "search_songs ?d {''cat''} = [(''A'', ''S1''), (''B'', ''S1'')]" by code_simp
  have same: "\<forall>a s. lookup_song ?d' a s = lookup_song ?d a s"
    by (auto simp: lookup_song_def)
  note t = search_songs_correct [OF w q v]
  have A: "set [(''A'', ''S1''), (''B'', ''S1'')] = matches ?d {''cat''}"
    by (rule conjunct1 [OF t, unfolded r])
  have B: "search_songs ?d' {''cat''} = [(''A'', ''S1''), (''B'', ''S1'')]"
    by (rule conjunct2 [OF conjunct2 [OF t], rule_format, OF conjI [OF w' same], unfolded r])
  show ?thesis
    by (intro conjI) (rule w q v r A B)+
qed

lemma matching_songs_empty_query:
  "matching_songs singer songs {} = map (\<lambda>song_name. (singer, song_name)) (map fst songs)"
proof -
  have "\<forall>song_name \<in> set (map fst songs). (case map_of songs song_name of Some word_set \<Rightarrow> {} \<subseteq> word_set
                              | None \<Rightarrow> False)"
  proof
    fix song_name assume "song_name \<in> set (map fst songs)"
    from song_lookup_found [OF this]
    show "case map_of songs song_name of Some word_set \<Rightarrow> {} \<subseteq> word_set | None \<Rightarrow> False"
      by auto
  qed
  then have "filter (\<lambda>song_name. case map_of songs song_name of Some word_set \<Rightarrow> {} \<subseteq> word_set
                              | None \<Rightarrow> False) (map fst songs) = map fst songs"
    by (rule filter_True)
  then show ?thesis unfolding matching_songs_def by (rule arg_cong)
qed

lemma length_search_songs_empty_query:
  "length (search_songs d {}) = (\<Sum>(singer, songs)\<leftarrow>d. length songs)"
proof -
  have "length (match_list d {}) = (\<Sum>(singer, songs)\<leftarrow>d. length songs)"
  proof (induction d)
    case Nil
    then show ?case by (simp add: match_list_def)
  next
    case (Cons p d)
    obtain singer songs where p: "p = (singer, songs)" by (cases p)
    have "match_list (p # d) {} = matching_songs singer songs {} @ match_list d {}"
      by (simp add: match_list_def p)
    with Cons.IH show ?case
      by (simp add: p matching_songs_empty_query)
  qed
  then show ?thesis by (simp add: search_songs_sort)
qed

text \<open>
  C9. For every index \<open>d\<close>, \<open>search_songs d {}\<close> holds every pair (artist, song) of the
  index, each once (as many pairs as the index has songs), in ascending order by artist
  and then by song. The function has no failing branch.
\<close>

theorem search_songs_empty_query:
  assumes "wf_index d"
  shows "set (search_songs d {}) = {(a, s). lookup_song d a s \<noteq> None}
         \<and> sorted_wrt (\<lambda>p q. fst p < fst q \<or> (fst p = fst q \<and> snd p < snd q)) (search_songs d {})
         \<and> length (search_songs d {}) = (\<Sum>(singer, songs)\<leftarrow>d. length songs)"
proof -
  have m: "matches d {} = {(a, s). lookup_song d a s \<noteq> None}"
    by (auto simp: matches_def)
  have "set (search_songs d {}) = {(a, s). lookup_song d a s \<noteq> None}"
    by (rule trans [OF search_songs_props(1) [OF assms] m])
  then show ?thesis
    using search_songs_order [OF assms, of "{}"] length_search_songs_empty_query [of d]
    by (intro conjI)
qed

theorem search_songs_empty_query_witness:
  "wf_index [(''B'', [(''S1'', {''cat'', ''sat''})]),
             (''A'', [(''S2'', {''dog'', ''ran''}), (''S1'', {''cat'', ''fast''})])]
   \<and> search_songs [(''B'', [(''S1'', {''cat'', ''sat''})]),
                    (''A'', [(''S2'', {''dog'', ''ran''}), (''S1'', {''cat'', ''fast''})])] {}
       = [(''A'', ''S1''), (''A'', ''S2''), (''B'', ''S1'')]
   \<and> set [(''A'', ''S1''), (''A'', ''S2''), (''B'', ''S1'')]
       = {(a, s). lookup_song [(''B'', [(''S1'', {''cat'', ''sat''})]),
                    (''A'', [(''S2'', {''dog'', ''ran''}), (''S1'', {''cat'', ''fast''})])] a s \<noteq> None}"
proof -
  let ?d = "[(''B'', [(''S1'', {''cat'', ''sat''})]),
             (''A'', [(''S2'', {''dog'', ''ran''}), (''S1'', {''cat'', ''fast''})])]"
  have w: "wf_index ?d" by code_simp
  have r: "search_songs ?d {} = [(''A'', ''S1''), (''A'', ''S2''), (''B'', ''S1'')]" by code_simp
  have A: "set [(''A'', ''S1''), (''A'', ''S2''), (''B'', ''S1'')]
          = {(a, s). lookup_song ?d a s \<noteq> None}"
    by (rule conjunct1 [OF search_songs_empty_query [OF w], unfolded r])
  show ?thesis
    by (intro conjI) (rule w r A)+
qed

section \<open>The average word count\<close>

lemma add_word_counts_sum:
  "add_word_counts word_total wss = word_total + (\<Sum>ws\<leftarrow>wss. card ws)"
  by (induction wss arbitrary: word_total) auto

lemma singer_average_value:
  "songs \<noteq> [] \<Longrightarrow>
     singer_average truediv songs = Inr (truediv (\<Sum>(song, ws)\<leftarrow>songs. card ws) (length songs))"
proof -
  have "(\<Sum>ws\<leftarrow>map snd songs. card ws) = (\<Sum>(song, ws)\<leftarrow>songs. card ws)"
    by (induction songs) auto
  then show "songs \<noteq> [] \<Longrightarrow> ?thesis"
    by (simp add: singer_average_def add_word_counts_sum)
qed

lemma average_loop_value:
  assumes "wf_dict d" "songs_nonempty d"
  shows "\<exists>average_dict. average_loop truediv acc d = Inr average_dict
           \<and> (\<forall>a. map_of average_dict a =
                 (case map_of d a of
                    Some songs \<Rightarrow> Some (truediv (\<Sum>(song, ws)\<leftarrow>songs. card ws) (length songs))
                  | None \<Rightarrow> map_of acc a))"
  using assms
proof (induction d arbitrary: acc)
  case Nil
  then show ?case by simp
next
  case (Cons p d)
  obtain singer songs where p: "p = (singer, songs)" by (cases p)
  from Cons.prems have w: "wf_dict d" "songs_nonempty d" "songs \<noteq> []" "map_of d singer = None"
    by (auto simp: p wf_dict_def songs_nonempty_def map_of_eq_None_iff)
  let ?v = "truediv (\<Sum>(song, ws)\<leftarrow>songs. card ws) (length songs)"
  from Cons.IH [OF w(1,2), of "AList.update singer ?v acc"]
  obtain average_dict where r: "average_loop truediv (AList.update singer ?v acc) d = Inr average_dict"
    "\<And>a. map_of average_dict a =
             (case map_of d a of
                Some songs \<Rightarrow> Some (truediv (\<Sum>(song, ws)\<leftarrow>songs. card ws) (length songs))
              | None \<Rightarrow> map_of (AList.update singer ?v acc) a)"
    by blast
  have "average_loop truediv acc (p # d) = Inr average_dict"
    using r(1) w(3) by (simp add: p singer_average_value)
  moreover have "\<And>a. map_of average_dict a =
                 (case map_of (p # d) a of
                    Some songs \<Rightarrow> Some (truediv (\<Sum>(song, ws)\<leftarrow>songs. card ws) (length songs))
                  | None \<Rightarrow> map_of acc a)"
    using w(4) by (auto simp: r(2) p update_conv' split: option.splits)
  ultimately show ?case by blast
qed

text \<open>
  C4. For every index \<open>d\<close> (distinct keys, every artist with at least one song) and every
  artist \<open>a\<close> in it with song map \<open>songs\<close>, the computation returns, and the average
  it stores for \<open>a\<close> is the division of the sum of the sizes of the WordSets of
  \<open>songs\<close> by the number of songs.
\<close>

theorem average_word_count_correct:
  assumes "wf_index d" and "songs_nonempty d" and "map_of d a = Some songs"
  shows "\<exists>average_dict. calculate_average_word_count truediv d = Inr average_dict
           \<and> map_of average_dict a =
               Some (truediv (\<Sum>(song, ws)\<leftarrow>songs. card ws) (length songs))"
proof -
  from assms(1) have "wf_dict d" by (simp add: wf_index_def)
  from average_loop_value [OF this assms(2), of truediv "[]"] assms(3)
  show ?thesis by (auto simp: calculate_average_word_count_def)
qed

theorem average_word_count_correct_witness:
  "wf_index [(''Art1'', [(''S1'', {''cat'', ''sat''}), (''S2'', {''dog'', ''ran'', ''fast''})])]
   \<and> songs_nonempty [(''Art1'', [(''S1'', {''cat'', ''sat''}), (''S2'', {''dog'', ''ran'', ''fast''})])]
   \<and> map_of [(''Art1'', [(''S1'', {''cat'', ''sat''}), (''S2'', {''dog'', ''ran'', ''fast''})])] ''Art1''
       = Some [(''S1'', {''cat'', ''sat''}), (''S2'', {''dog'', ''ran'', ''fast''})]
   \<and> (\<exists>average_dict.
         calculate_average_word_count exact_quotient
           [(''Art1'', [(''S1'', {''cat'', ''sat''}), (''S2'', {''dog'', ''ran'', ''fast''})])]
           = Inr average_dict
         \<and> map_of average_dict ''Art1'' = Some (5 / 2))"
proof -
  let ?songs = "[(''S1'', {''cat'', ''sat''}), (''S2'', {''dog'', ''ran'', ''fast''})]"
  let ?d = "[(''Art1'', ?songs)]"
  have w: "wf_index ?d" by code_simp
  have n: "songs_nonempty ?d" by code_simp
  have m: "map_of ?d ''Art1'' = Some ?songs" by simp
  have e: "exact_quotient (\<Sum>(song, ws)\<leftarrow>?songs. card ws) (length ?songs) = 5 / 2"
    by (simp add: exact_quotient_def)
  note t = average_word_count_correct [OF w n m, of exact_quotient, unfolded e]
  show ?thesis
    by (intro conjI) (rule w n m t)+
qed

section \<open>Ranking the singers\<close>

lemma mset_sorted_reverse: "mset (sorted_reverse key xs) = mset xs"
  by (simp add: sorted_reverse_def)

lemma sorted_reverse_descending:
  "sorted_wrt (\<lambda>x y. key y \<le> key x) (sorted_reverse key xs)"
proof -
  have "sorted (map key (sort_key key (rev xs)))" by (rule sorted_sort_key)
  then have "sorted_wrt (\<lambda>x y. key x \<le> key y) (sort_key key (rev xs))"
    by (simp add: sorted_wrt_map)
  then show ?thesis
    by (simp add: sorted_reverse_def sorted_wrt_rev)
qed

lemma sorted_reverse_stable:
  "filter (\<lambda>y. key y = k) (sorted_reverse key xs) = filter (\<lambda>y. key y = k) xs"
proof -
  have "filter (\<lambda>y. key y = k) (sorted_reverse key xs)
          = rev (filter (\<lambda>y. key y = k) (sort_key key (rev xs)))"
    by (simp add: sorted_reverse_def rev_filter)
  also have "\<dots> = rev (filter (\<lambda>y. key y = k) (rev xs))"
    by (simp only: sort_key_stable)
  also have "\<dots> = filter (\<lambda>y. key y = k) xs"
    by (simp add: rev_filter)
  finally show ?thesis .
qed

lemma itemgetter_1_3_le:
  "itemgetter_1_3 (s', avg' :: 'f :: linorder, v', n') \<le> itemgetter_1_3 (s, avg, v, n)
     \<longleftrightarrow> avg' < avg \<or> (avg' = avg \<and> n' \<le> n)"
  by (auto simp: itemgetter_1_3_def less_eq_prod_def)

text \<open>
  C8. For every list of tuples (artist, average, vocabulary size, song count),
  \<open>display_singers\<close> shows the first 10 tuples of the list sorted in descending order,
  by the average first and by the song count among equal averages; the sorted list is a
  rearrangement of the input in which tuples with the same average and song count keep
  the order they had.
\<close>

theorem display_singers_top10:
  "\<exists>singers_list.
     display_singers combined_list = take 10 singers_list
     \<and> mset singers_list = mset combined_list
     \<and> sorted_wrt (\<lambda>(s, avg, v, n) (s', avg', v', n'). avg' < avg \<or> (avg' = avg \<and> n' \<le> n))
          singers_list
     \<and> (\<forall>k. filter (\<lambda>t. itemgetter_1_3 t = k) singers_list
              = filter (\<lambda>t. itemgetter_1_3 t = k) combined_list)"
proof -
  let ?l = "sorted_reverse itemgetter_1_3 combined_list"
  have "sorted_wrt (\<lambda>x y. itemgetter_1_3 y \<le> itemgetter_1_3 x) ?l"
    by (rule sorted_reverse_descending)
  then have "sorted_wrt (\<lambda>(s, avg, v, n) (s', avg', v', n'). avg' < avg \<or> (avg' = avg \<and> n' \<le> n)) ?l"
    by (rule sorted_wrt_mono_rel [rotated]) (auto simp: itemgetter_1_3_le)
  moreover have "display_singers combined_list = take 10 ?l"
    by (simp add: display_singers_def)
  ultimately show ?thesis
    using mset_sorted_reverse [of itemgetter_1_3 combined_list]
      sorted_reverse_stable [of itemgetter_1_3 _ combined_list]
    by blast
qed

lemma display_singers_example:
  "display_singers
     [(''a'', 1 :: rat, 5, 3), (''b'', 2, 3, 1), (''c'', 1, 1, 4), (''d'', 1, 2, 3), (''e'', 5 / 2, 3, 3),
      (''f'', 0, 0, 1), (''g'', 7, 9, 2), (''h'', 7, 9, 5), (''i'', 3, 3, 3), (''j'', 4, 4, 4),
      (''k'', 6, 1, 1), (''l'', 1, 1, 3)]
   = [(''h'', 7, 9, 5), (''g'', 7, 9, 2), (''k'', 6, 1, 1), (''j'', 4, 4, 4), (''i'', 3, 3, 3),
      (''e'', 5 / 2, 3, 3), (''b'', 2, 3, 1), (''c'', 1, 1, 4), (''a'', 1, 5, 3), (''d'', 1, 2, 3)]"
  by code_simp

section \<open>Tokenizing twice\<close>

lemma validate_word_eq: "validate_word w S \<longleftrightarrow> w \<notin> S \<and> isalpha w"
  by (simp add: validate_word_def)

lemma add_valid_words_set:
  "add_valid_words acc ws S = acc \<union> {w \<in> set ws. validate_word w S}"
  by (induction acc ws S rule: add_valid_words.induct) auto

lemma process_lyrics_set:
  "process_lyrics text S =
     {w \<in> (\<lambda>word. strip_punctuation (strip (lower word))) ` set (split_whitespace text). validate_word w S}"
  by (simp add: process_lyrics_def add_valid_words_set)

lemma lower_char_idem: "lower_char (lower_char c) = lower_char c"
  by (auto simp: lower_char_def ord_def Let_def)

lemma set_strip_chars: "set (strip_chars P s) \<subseteq> set s"
proof -
  have "set (dropWhile P (rev (dropWhile P s))) \<subseteq> set (rev (dropWhile P s))"
    by (auto dest: set_dropWhileD)
  also have "\<dots> \<subseteq> set s"
    by (auto dest: set_dropWhileD)
  finally show ?thesis by (simp add: strip_chars_def)
qed

lemma strip_chars_id:
  assumes "s \<noteq> []" "\<not> P (hd s)" "\<not> P (last s)"
  shows "strip_chars P s = s"
proof -
  have "dropWhile P s = s"
    using assms(2) by (simp add: dropWhile_eq_self_iff)
  moreover have "dropWhile P (rev s) = rev s"
    using assms(1,3) by (simp add: dropWhile_eq_self_iff hd_rev)
  ultimately show ?thesis by (simp add: strip_chars_def)
qed

lemma isalpha_strip:
  assumes "isalpha w"
  shows "strip w = w" and "strip_punctuation w = w"
proof -
  from assms have n: "w \<noteq> []" and a: "isalpha_char (hd w)" "isalpha_char (last w)"
    by (auto simp: isalpha_def list_all_iff)
  from a show "strip w = w"
    unfolding strip_def by (intro strip_chars_id n) (auto dest: alpha_not_other)
  from a show "strip_punctuation w = w"
    unfolding strip_punctuation_def by (intro strip_chars_id n) (auto dest: alpha_not_other)
qed

lemma token_lower:
  assumes "w \<in> process_lyrics text S"
  shows "lower w = w"
proof -
  from assms obtain t where w: "w = strip_punctuation (strip (lower t))"
    by (auto simp: process_lyrics_set)
  have "set w \<subseteq> set (lower t)"
    unfolding w strip_def strip_punctuation_def
    using set_strip_chars [of ispunct_char "strip_chars isspace_char (lower t)"]
      set_strip_chars [of isspace_char "lower t"]
    by blast
  then have "\<forall>c \<in> set w. lower_char c = c"
    by (auto simp: lower_def lower_char_idem)
  then show ?thesis
    by (simp add: lower_def map_idI)
qed

lemma token_fixed:
  assumes "w \<in> process_lyrics text S"
  shows "strip_punctuation (strip (lower w)) = w" and "validate_word w S"
proof -
  from assms show v: "validate_word w S" by (simp add: process_lyrics_set)
  then have "isalpha w" by (simp add: validate_word_eq)
  then show "strip_punctuation (strip (lower w)) = w"
    by (simp add: token_lower [OF assms] isalpha_strip)
qed

lemma split_from_word:
  "\<forall>c \<in> set w. \<not> isspace_char c \<Longrightarrow> split_from cur (w @ rest) = split_from (cur @ w) rest"
  by (induction w arbitrary: cur) auto

lemma isspace_space: "isspace_char CHR '' ''"
  by (simp add: isspace_char_def ord_def)

lemma split_join_words:
  "\<forall>w \<in> set ws. w \<noteq> [] \<and> (\<forall>c \<in> set w. \<not> isspace_char c) \<Longrightarrow> split_whitespace (join_words ws) = ws"
  unfolding split_whitespace_def
proof (induction ws rule: join_words.induct)
  case 1
  then show ?case by simp
next
  case (2 w)
  then show ?case
    using split_from_word [of w "[]" "[]"] by simp
next
  case (3 w v ws)
  then have "split_from [] (join_words (v # ws)) = v # ws" by simp
  moreover have "split_from [] (w @ '' '' @ join_words (v # ws))
                   = split_from w ('' '' @ join_words (v # ws))"
    using 3 split_from_word [of w "[]"] by simp
  ultimately show ?case
    using 3 by (simp add: isspace_space)
qed

text \<open>
  C6. For every text and every stopword set \<open>S\<close>, and every list \<open>ws\<close> of the words of
  \<open>process_lyrics text S\<close> (the set in any order), tokenizing the words joined by
  spaces gives the same word set again.
\<close>

theorem process_lyrics_idempotent:
  assumes "set ws = process_lyrics text S"
  shows "process_lyrics (join_words ws) S = process_lyrics text S"
proof -
  have tok: "\<And>w. w \<in> set ws \<Longrightarrow> strip_punctuation (strip (lower w)) = w \<and> validate_word w S"
    using token_fixed assms by blast
  have "\<forall>w \<in> set ws. w \<noteq> [] \<and> (\<forall>c \<in> set w. \<not> isspace_char c)"
    using tok by (auto simp: validate_word_eq isalpha_def list_all_iff dest: alpha_not_other)
  then have "split_whitespace (join_words ws) = ws" by (rule split_join_words)
  then have "process_lyrics (join_words ws) S =
               {w \<in> (\<lambda>word. strip_punctuation (strip (lower word))) ` set ws. validate_word w S}"
    by (simp add: process_lyrics_set)
  also have "\<dots> = set ws"
    using tok by (auto simp: image_iff)
  finally show ?thesis using assms by simp
qed

theorem process_lyrics_idempotent_witness:
  "set [''sat'', ''cat''] = process_lyrics ''The cat, the CAT sat!'' {''the''}
   \<and> process_lyrics (join_words [''sat'', ''cat'']) {''the''}
       = process_lyrics ''The cat, the CAT sat!'' {''the''}"
proof -
  have h: "set [''sat'', ''cat''] = process_lyrics ''The cat, the CAT sat!'' {''the''}"
    by code_simp
  show ?thesis
    by (intro conjI) (rule h process_lyrics_idempotent [OF h])+
qed

end
